theory Spec2Isabelle
  imports Main "HOL-Library.Word"
begin

unbundle bit_operations_syntax

section \<open>Results of Go functions\<close>

text \<open>
  Go strings are byte sequences: \<open>len(s)\<close> counts bytes and \<open>s[i]\<close> is a byte, so a
  Go string is a \<^typ>\<open>string\<close> (a list of 8-bit characters).  A Go function either
  returns values with a nil error, returns a non-nil error, or panics at run time
  (index out of range, nil dereference).  The three outcomes are kept apart.
\<close>

datatype error =
    ErrUnterminatedString
  | BadPassFile string
  | BadPassFileMode string
  | BadPassFileLine nat
  | BadPassFileFieldEmpty nat nat
  | ErrNormalizingURL
  | OtherError string

datatype panic = IndexOutOfRange | NilDereference

datatype 'a result = Ok 'a | Err error | Panic panic

abbreviation squote :: char where "squote \<equiv> CHR 0x27"
abbreviation dquote :: char where "dquote \<equiv> CHR 0x22"

text \<open>The slice expression \<open>s[a:b]\<close>, used where the source has it in range.\<close>

definition slice :: "'a list \<Rightarrow> nat \<Rightarrow> nat \<Rightarrow> 'a list" where
  "slice s a b = take (b - a) (drop a s)"

section \<open>env.go: quoting and variable references\<close>

text \<open>
  \<^verbatim>\<open>func unquote(s string, c rune) (string, error)\<close>: the slice \<open>s[1 : len(s)-1]\<close> is
  taken only when \<open>len(s) \<ge> 2\<close>, so it is always in range.
\<close>

definition unquote :: "string \<Rightarrow> char \<Rightarrow> string result" where
  "unquote s c =
     (if length s < 2 \<or> s ! (length s - 1) \<noteq> c then Err ErrUnterminatedString
      else Ok (slice s 1 (length s - 1)))"

text \<open>
  \<^verbatim>\<open>func Getvar(s string) (bool, string, error)\<close>.  The package variable \<open>vars\<close>
  (the session variables) is the first argument.  \<open>s[0]\<close> is read before anything
  else, which panics on the empty string.
\<close>

definition Getvar :: "(string \<rightharpoonup> string) \<Rightarrow> string \<Rightarrow> (bool \<times> string) result" where
  "Getvar vars s =
     (case s of
        [] \<Rightarrow> Panic IndexOutOfRange
      | c # _ \<Rightarrow>
          (if c = squote \<or> c = dquote then
             (case unquote s c of
                Err e \<Rightarrow> Err e
              | Panic p \<Rightarrow> Panic p
              | Ok n \<Rightarrow>
                  (case vars n of
                     Some v \<Rightarrow> Ok (True, [c] @ v @ [c])
                   | None \<Rightarrow> Ok (False, s)))
           else
             (case vars s of
                Some v \<Rightarrow> Ok (True, v)
              | None \<Rightarrow> Ok (False, s))))"

text \<open>
  \<^verbatim>\<open>func Unquote(u *user.User, s string) (string, error)\<close>; the user argument is
  not read by the body and is left out.
\<close>

definition Unquote :: "(string \<rightharpoonup> string) \<Rightarrow> string \<Rightarrow> string result" where
  "Unquote vars s =
     (if s = [] then Ok []
      else if length s > 1 then
        (let c = s ! 0 in
         if c = CHR '':'' then
           (case Getvar vars (slice s 1 (length s)) of
              Err e \<Rightarrow> Err e
            | Panic p \<Rightarrow> Panic p
            | Ok (ok, v) \<Rightarrow> if ok then Ok v else Ok s)
         else if c = squote \<or> c = dquote then unquote s c
         else Ok s)
      else Ok s)"

section \<open>env.go: the password file\<close>

subsection \<open>Library functions used on each line\<close>

text \<open>
  \<^verbatim>\<open>commentRE.ReplaceAllString(s, "")\<close> with \<^verbatim>\<open>commentRE = regexp.MustCompile(`#.*`)\<close>:
  every match is removed.  A match starts at a \<open>#\<close> and runs to the end of the string
  or up to the next newline, which \<open>.\<close> does not match.  The flag says whether the
  scan is inside a match.
\<close>

fun stripComments :: "bool \<Rightarrow> string \<Rightarrow> string" where
  "stripComments inside [] = []"
| "stripComments inside (c # cs) =
     (if c = CHR 0x0A then c # stripComments False cs
      else if inside then stripComments True cs
      else if c = CHR ''#'' then stripComments True cs
      else c # stripComments False cs)"

definition commentRE_ReplaceAllString :: "string \<Rightarrow> string" where
  "commentRE_ReplaceAllString s = stripComments False s"

text \<open>
  \<^verbatim>\<open>strings.TrimSpace\<close> removes leading and trailing white space as \<open>unicode.IsSpace\<close>
  defines it, decoding UTF-8.  On bytes: the six ASCII characters below, and the UTF-8
  encodings of U+0085, U+00A0, U+1680, U+2000 to U+200A, U+2028, U+2029, U+202F, U+205F
  and U+3000.  A white-space rune is at the front (at the end) of a string exactly when
  one of these byte sequences is a prefix (a suffix) of it.
\<close>

definition asciiSpace :: "char list" where
  "asciiSpace = [CHR 0x09, CHR 0x0A, CHR 0x0B, CHR 0x0C, CHR 0x0D, CHR 0x20]"

definition unicodeSpace :: "string list" where
  "unicodeSpace =
     [[CHR 0xC2, CHR 0x85], [CHR 0xC2, CHR 0xA0], [CHR 0xE1, CHR 0x9A, CHR 0x80],
      [CHR 0xE2, CHR 0x80, CHR 0x80], [CHR 0xE2, CHR 0x80, CHR 0x81],
      [CHR 0xE2, CHR 0x80, CHR 0x82], [CHR 0xE2, CHR 0x80, CHR 0x83],
      [CHR 0xE2, CHR 0x80, CHR 0x84], [CHR 0xE2, CHR 0x80, CHR 0x85],
      [CHR 0xE2, CHR 0x80, CHR 0x86], [CHR 0xE2, CHR 0x80, CHR 0x87],
      [CHR 0xE2, CHR 0x80, CHR 0x88], [CHR 0xE2, CHR 0x80, CHR 0x89],
      [CHR 0xE2, CHR 0x80, CHR 0x8A], [CHR 0xE2, CHR 0x80, CHR 0xA8],
      [CHR 0xE2, CHR 0x80, CHR 0xA9], [CHR 0xE2, CHR 0x80, CHR 0xAF],
      [CHR 0xE2, CHR 0x81, CHR 0x9F], [CHR 0xE3, CHR 0x80, CHR 0x80]]"

definition spaces :: "string list" where
  "spaces = map (\<lambda>c. [c]) asciiSpace @ unicodeSpace"

text \<open>The width in bytes of the white-space rune at the front of \<open>s\<close>; 0 if there is none.\<close>

definition spaceWidth :: "string \<Rightarrow> nat" where
  "spaceWidth s =
     (case find (\<lambda>p. take (length p) s = p) spaces of None \<Rightarrow> 0 | Some p \<Rightarrow> length p)"

text \<open>The same at the end of \<open>s\<close>.\<close>

definition spaceWidthLast :: "string \<Rightarrow> nat" where
  "spaceWidthLast s =
     (case find (\<lambda>p. length p \<le> length s \<and> drop (length s - length p) s = p) spaces of
        None \<Rightarrow> 0
      | Some p \<Rightarrow> length p)"

lemma spaceWidth_le: "spaceWidth s \<le> length s"
proof (cases "find (\<lambda>p. take (length p) s = p) spaces")
  case None
  then show ?thesis by (simp add: spaceWidth_def)
next
  case (Some p)
  then have "take (length p) s = p" by (auto simp: find_Some_iff)
  then have "min (length s) (length p) = length p" by (metis length_take)
  then have "length p \<le> length s" by linarith
  with Some show ?thesis by (simp add: spaceWidth_def)
qed

lemma spaceWidthLast_le: "spaceWidthLast s \<le> length s"
  by (auto simp: spaceWidthLast_def find_Some_iff split: option.splits)

function TrimLeftSpace :: "string \<Rightarrow> string" where
  "TrimLeftSpace s =
     (if spaceWidth s = 0 then s else TrimLeftSpace (drop (spaceWidth s) s))"
  by pat_completeness auto
termination
proof (relation "measure length")
  show "wf (measure length)" by simp
next
  fix s :: string
  assume "spaceWidth s \<noteq> 0"
  with spaceWidth_le [of s] show "(drop (spaceWidth s) s, s) \<in> measure length"
    by simp
qed

function TrimRightSpace :: "string \<Rightarrow> string" where
  "TrimRightSpace s =
     (if spaceWidthLast s = 0 then s
      else TrimRightSpace (take (length s - spaceWidthLast s) s))"
  by pat_completeness auto
termination
proof (relation "measure length")
  show "wf (measure length)" by simp
next
  fix s :: string
  assume "spaceWidthLast s \<noteq> 0"
  with spaceWidthLast_le [of s]
  show "(take (length s - spaceWidthLast s) s, s) \<in> measure length"
    by simp
qed

definition TrimSpace :: "string \<Rightarrow> string" where
  "TrimSpace s = TrimRightSpace (TrimLeftSpace s)"

text \<open>
  \<^verbatim>\<open>strings.Split(s, ":")\<close>, for a separator of one byte.  As in the library, the
  next separator is looked for; without one the rest of the string is the last piece,
  otherwise the bytes before it are a piece and the search goes on behind it.  The
  result has one more piece than there are separators (so it is never empty).
\<close>

function Split :: "string \<Rightarrow> char \<Rightarrow> string list" where
  "Split s sep =
     (case dropWhile (\<lambda>c. c \<noteq> sep) s of
        [] \<Rightarrow> [s]
      | _ # rest \<Rightarrow> takeWhile (\<lambda>c. c \<noteq> sep) s # Split rest sep)"
  by pat_completeness auto
termination
proof (relation "measure (\<lambda>(s, sep). length s)")
  show "wf (measure (\<lambda>(s, sep). length s))" by simp
next
  fix s :: string and sep x rest
  assume "dropWhile (\<lambda>c. c \<noteq> sep) s = x # rest"
  then have "length (x # rest) \<le> length s"
    by (metis length_dropWhile_le)
  then show "((rest, sep), (s, sep)) \<in> measure (\<lambda>(s, sep). length s)"
    by simp
qed

subsection \<open>readPassEntries\<close>

text \<open>
  What \<^verbatim>\<open>os.OpenFile(path, os.O_RDONLY, 0)\<close> gives: an error, or a file, of which the
  function sees the lines the \<^verbatim>\<open>bufio.Scanner\<close> yields, in order, until
  \<^verbatim>\<open>s.Scan()\<close> is false (at the end of the file; the scanner's own error is not
  looked at).  A line has no newline in it.
\<close>

datatype open_result = OpenError error | Opened "string list"

text \<open>The inner loop \<^verbatim>\<open>for j := 0; j < len(v); j++\<close>: the first empty field from \<open>j\<close> on.\<close>

fun emptyField :: "nat \<Rightarrow> string list \<Rightarrow> nat option" where
  "emptyField j [] = None"
| "emptyField j (f # fs) = (if f = [] then Some j else emptyField (j + 1) fs)"

text \<open>
  The loop \<^verbatim>\<open>for s.Scan()\<close>, with the counter \<open>i\<close> of the lines read so far and
  the entries appended so far.
\<close>

fun scanEntries :: "nat \<Rightarrow> string list list \<Rightarrow> string list \<Rightarrow> string list list result" where
  "scanEntries i entries [] = Ok entries"
| "scanEntries i entries (t # ts) =
     (let i = i + 1;
          line = TrimSpace (commentRE_ReplaceAllString t)
      in if line = [] then scanEntries i entries ts
         else
           (let v = Split line (CHR '':'')
            in if length v \<noteq> 6 then Err (BadPassFileLine i)
               else
                 (case emptyField 0 v of
                    Some j \<Rightarrow> Err (BadPassFileFieldEmpty i j)
                  | None \<Rightarrow> scanEntries i (entries @ [v]) ts)))"

definition readPassEntries :: "open_result \<Rightarrow> string list list result" where
  "readPassEntries f =
     (case f of
        OpenError e \<Rightarrow> Err e
      | Opened lines \<Rightarrow> scanEntries 0 [] lines)"

subsection \<open>matchPassEntry\<close>

text \<open>
  The loop \<^verbatim>\<open>for i := 0; i < len(n); i++\<close> from index \<open>i\<close> on.  \<open>entry[i]\<close> is read
  with no check of \<open>len(entry)\<close>, and so are \<open>entry[4]\<close> and \<open>entry[5]\<close> after the loop;
  an index beyond the slice is a run-time panic.
\<close>

function matchFrom :: "nat \<Rightarrow> string list \<Rightarrow> string list \<Rightarrow> (string \<times> string \<times> bool) result" where
  "matchFrom i n entry =
     (if i < length n then
        (if length entry \<le> i then Panic IndexOutOfRange
         else if entry ! i \<noteq> ''*'' \<and> entry ! i \<noteq> n ! i then Ok ([], [], False)
         else matchFrom (i + 1) n entry)
      else if length entry \<le> 5 then Panic IndexOutOfRange
      else Ok (entry ! 4, entry ! 5, True))"
  by pat_completeness auto
termination
  by (relation "measure (\<lambda>(i, n, entry). length n - i)") auto

definition matchPassEntry :: "string list \<Rightarrow> string list \<Rightarrow> (string \<times> string \<times> bool) result" where
  "matchPassEntry n entry = matchFrom 0 n entry"

subsection \<open>PassFileEntry\<close>

text \<open>\<^verbatim>\<open>url.Userinfo\<close>, and \<^verbatim>\<open>url.UserPassword\<close> which builds one with a password.\<close>

record Userinfo =
  username :: string
  password :: string
  passwordSet :: bool

definition UserPassword :: "string \<Rightarrow> string \<Rightarrow> Userinfo" where
  "UserPassword u p = \<lparr>username = u, password = p, passwordSet = True\<rparr>"

text \<open>
  Of the \<^verbatim>\<open>dburl.URL\<close> the function reads the field \<open>User\<close> (which may be nil) and the
  string that \<^verbatim>\<open>v.Normalize(":", "", 3)\<close> returns; the normalisation itself belongs
  to the URL library.
\<close>

record URL =
  User :: "Userinfo option"
  Normalize3 :: string

text \<open>
  What \<^verbatim>\<open>os.Stat(path)\<close> gives: an error for which \<^verbatim>\<open>os.IsNotExist\<close> holds, another
  error (the returned \<open>FileInfo\<close> is nil in both cases), or the file's mode, a
  \<open>uint32\<close> whose bit 31 is \<^verbatim>\<open>os.ModeDir\<close> and whose low nine bits are the permissions.
\<close>

type_synonym FileMode = "32 word"

datatype stat_result = StatNotExist | StatError | StatInfo FileMode

definition IsDir :: "FileMode \<Rightarrow> bool" where
  "IsDir m = (m AND 0x80000000 \<noteq> 0)"

text \<open>
  The surroundings of one call: the platform, the path \<^verbatim>\<open>PassFile(u)\<close> computes, and
  what the two system calls on that path give.
\<close>

record world =
  GOOS :: string
  PassFilePath :: string
  Stat :: stat_result
  OpenFile :: open_result

text \<open>The loop \<^verbatim>\<open>for _, entry := range entries\<close>.\<close>

fun findEntry :: "string \<Rightarrow> string list \<Rightarrow> string list list \<Rightarrow> Userinfo option result" where
  "findEntry uname n [] = Ok None"
| "findEntry uname n (entry # rest) =
     (case matchPassEntry n entry of
        Panic x \<Rightarrow> Panic x
      | Err e \<Rightarrow> Err e
      | Ok (u, p, ok) \<Rightarrow>
          if ok then Ok (Some (UserPassword (if u = ''*'' then uname else u) p))
          else findEntry uname n rest)"

definition PassFileEntry :: "world \<Rightarrow> URL \<Rightarrow> Userinfo option result" where
  "PassFileEntry w v =
     (let uname = (case User v of None \<Rightarrow> [] | Some ui \<Rightarrow> username ui) in
      if (case User v of None \<Rightarrow> False | Some ui \<Rightarrow> passwordSet ui) then Ok None
      else
        (case Stat w of
           StatNotExist \<Rightarrow> Ok None
         | StatError \<Rightarrow> Panic NilDereference
         | StatInfo mode \<Rightarrow>
             if IsDir mode then Err (BadPassFile (PassFilePath w))
             else if GOOS w \<noteq> ''windows'' \<and> mode AND 0x3f \<noteq> 0
               then Err (BadPassFileMode (PassFilePath w))
             else
               (case readPassEntries (OpenFile w) of
                  Err e \<Rightarrow> Err e
                | Panic x \<Rightarrow> Panic x
                | Ok entries \<Rightarrow>
                    (let n = Split (Normalize3 v) (CHR '':'')
                     in if length n < 3 then Err ErrNormalizingURL
                        else findEntry uname n entries))))"

section \<open>metacmd: the command table and its indices\<close>

text \<open>
  Modelled from the spec: the type \<open>Metacmd\<close> with its constants \<open>None\<close>, \<open>Question\<close>, ...,
  \<open>SetFormatVar\<close> and the type \<open>Section\<close> with its constants are declared in a file of
  the package that is not among the sources.  The constants are the indices of the
  slice literal \<open>cmds\<close>, hence pairwise distinct, and \<open>None\<close> is the empty command; they
  are taken as symbolic values (\<open>NoneCmd\<close> for \<open>None\<close>, \<open>NoSection\<close> for the zero value
  of \<open>Section\<close>).
\<close>

datatype Section =
    NoSection | SectionGeneral | SectionHelp | SectionConnection | SectionQueryBuffer
  | SectionTransaction | SectionVariables | SectionFormatting

datatype Metacmd =
    NoneCmd | Question | Quit | Copyright | ConnectionInfo | Password | Print | Reset
  | Transact | Prompt | SetVar | Unset | SetFormatVar

record Cmd =
  Section :: Section
  Name :: string
  Desc :: string
  Min_args :: nat
  Aliases :: "(string \<times> string) list"

text \<open>The zero value of \<open>Cmd\<close>, which the slice holds at an index the literal does not give.\<close>

definition zeroCmd :: Cmd where
  "zeroCmd = \<lparr>Section = NoSection, Name = [], Desc = [], Min_args = 0, Aliases = []\<rparr>"

text \<open>
  The slice \<^verbatim>\<open>cmds\<close> as \<^verbatim>\<open>for i, c := range cmds\<close> visits it: index and element, in
  the order of the literal.  The handler \<open>Process\<close> of an element is not part of the
  table here; \<^verbatim>\<open>text.CommandName\<close>, of another package, is the argument.  \<open>Aliases\<close> is
  a Go map, written as the list of its key/value pairs.
\<close>

definition cmds :: "string \<Rightarrow> (Metacmd \<times> Cmd) list" where
  "cmds CommandName =
     [(NoneCmd, zeroCmd),
      (Question,
       \<lparr>Section = SectionHelp, Name = ''?'',
        Desc = ''show help on backslash commands,[commands]'', Min_args = 0,
        Aliases =
          [(''?'', ''show help on '' @ CommandName @ '' command-line options,options''),
           (''? '', ''show help on special variables,variables'')]\<rparr>),
      (Quit,
       \<lparr>Section = SectionGeneral, Name = ''q'', Desc = ''quit '' @ CommandName, Min_args = 0,
        Aliases = [(''quit'', [])]\<rparr>),
      (Copyright,
       \<lparr>Section = SectionGeneral, Name = ''copyright'',
        Desc = ''show '' @ CommandName @ '' usage and distribution terms'', Min_args = 0,
        Aliases = []\<rparr>),
      (ConnectionInfo,
       \<lparr>Section = SectionConnection, Name = ''conninfo'',
        Desc = ''display information about the current database connection'', Min_args = 0,
        Aliases = []\<rparr>),
      (Password,
       \<lparr>Section = SectionConnection, Name = ''password'',
        Desc = ''change the password for a user,[USERNAME]'', Min_args = 0,
        Aliases = [(''passwd'', [])]\<rparr>),
      (Print,
       \<lparr>Section = SectionQueryBuffer, Name = ''p'',
        Desc = ''show the contents of the query buffer'', Min_args = 0,
        Aliases =
          [(''print'', []),
           (''raw'', ''show the raw (non-interpolated) contents of the query buffer'')]\<rparr>),
      (Reset,
       \<lparr>Section = SectionQueryBuffer, Name = ''r'',
        Desc = ''reset (clear) the query buffer'', Min_args = 0,
        Aliases = [(''reset'', [])]\<rparr>),
      (Transact,
       \<lparr>Section = SectionTransaction, Name = ''begin'',
        Desc = ''begin a transaction'', Min_args = 0,
        Aliases =
          [(''commit'', ''commit current transaction''),
           (''rollback'', ''rollback (abort) current transaction'')]\<rparr>),
      (Prompt,
       \<lparr>Section = SectionVariables, Name = ''prompt'',
        Desc = ''prompt user to set variable,[-TYPE] [PROMPT] <VAR>'', Min_args = 1,
        Aliases = []\<rparr>),
      (SetVar,
       \<lparr>Section = SectionVariables, Name = ''set'',
        Desc = ''set internal variable, or list all if no parameters,[NAME [VALUE]]'',
        Min_args = 0, Aliases = []\<rparr>),
      (Unset,
       \<lparr>Section = SectionVariables, Name = ''unset'',
        Desc = ''unset (delete) internal variable,NAME'', Min_args = 1, Aliases = []\<rparr>),
      (SetFormatVar,
       \<lparr>Section = SectionFormatting, Name = ''pset'',
        Desc = ''set table output option,[NAME [VALUE]]'', Min_args = 0,
        Aliases =
          [(''a'', ''toggle between unaligned and aligned output mode''),
           (''C'', ''set table title, or unset if none,[STRING]''),
           (''f'', ''show or set field separator for unaligned query output,[STRING]''),
           (''H'', ''toggle HTML output mode''),
           (''T'', ''set HTML <table> tag attributes, or unset if none,[STRING]''),
           (''t'', ''show only rows,[on|off]''),
           (''x'', ''toggle expanded output,[on|off|auto]'')]\<rparr>)]"

text \<open>
  The inner loop \<^verbatim>\<open>for alias := range c.Aliases\<close> (every alias gets the same value,
  so the order in which Go visits the map does not show in the result), and the outer
  loop of \<^verbatim>\<open>init\<close> on the two indices.
\<close>

fun addAliases :: "Metacmd \<Rightarrow> string list \<Rightarrow> (string \<rightharpoonup> Metacmd) \<Rightarrow> (string \<rightharpoonup> Metacmd)" where
  "addAliases mc [] cmdMap = cmdMap"
| "addAliases mc (alias # rest) cmdMap = addAliases mc rest (cmdMap(alias \<mapsto> mc))"

fun initLoop ::
  "(Metacmd \<times> Cmd) list \<Rightarrow> (string \<rightharpoonup> Metacmd) \<times> (Section \<Rightarrow> Metacmd list) \<Rightarrow>
   (string \<rightharpoonup> Metacmd) \<times> (Section \<Rightarrow> Metacmd list)" where
  "initLoop [] maps = maps"
| "initLoop ((mc, c) # rest) (cmdMap, sectMap) =
     (if mc = NoneCmd then initLoop rest (cmdMap, sectMap)
      else initLoop rest
        (addAliases mc (map fst (Aliases c)) (cmdMap(Name c \<mapsto> mc)),
         sectMap(Section c := sectMap (Section c) @ [mc])))"

definition init :: "string \<Rightarrow> (string \<rightharpoonup> Metacmd) \<times> (Section \<Rightarrow> Metacmd list)" where
  "init CommandName = initLoop (cmds CommandName) (Map.empty, \<lambda>_. [])"

definition cmdMap :: "string \<Rightarrow> (string \<rightharpoonup> Metacmd)" where
  "cmdMap CommandName = fst (init CommandName)"

definition sectMap :: "string \<Rightarrow> (Section \<Rightarrow> Metacmd list)" where
  "sectMap CommandName = snd (init CommandName)"

section \<open>metacmd: the handler of \<open>pset\<close> and its aliases\<close>

text \<open>
  Modelled from the spec: \<^verbatim>\<open>env.Pget\<close>, \<^verbatim>\<open>env.Ptoggle\<close> and \<^verbatim>\<open>env.Pset\<close> (the
  format-option engine) are in files that are not among the sources; the handler takes
  them as they are at the time of the call.  Each returns the option's value or an
  error.
\<close>

record penv =
  Pget :: "string \<Rightarrow> string result"
  Ptoggle :: "string \<Rightarrow> string \<Rightarrow> string result"
  Pset :: "string \<Rightarrow> string \<Rightarrow> string result"

text \<open>
  Modelled from the spec: \<^verbatim>\<open>p.Get()\<close>, the parameter cursor of the package, hands out
  the next argument and the empty string when none is left.
\<close>

definition Get :: "string list \<Rightarrow> string \<times> string list" where
  "Get params = (case params of [] \<Rightarrow> ([], []) | x # rest \<Rightarrow> (x, rest))"

text \<open>\<^verbatim>\<open>strings.Contains\<close>.\<close>

fun Contains :: "string \<Rightarrow> string \<Rightarrow> bool" where
  "Contains [] substr = (substr = [])"
| "Contains (c # cs) substr = (take (length substr) (c # cs) = substr \<or> Contains cs substr)"

text \<open>
  What the handler writes: the call of \<^verbatim>\<open>fmt.Fprintf\<close> or \<^verbatim>\<open>fmt.Fprint\<close> it makes,
  with the template and the value (for \<open>%d\<close> the value goes through
  \<^verbatim>\<open>strconv.Atoi\<close> first); or the listing of all options, which is not detailed.
\<close>

datatype printed =
    Fprintf_int string string
  | Fprint string
  | Fprintf_str string string

datatype shown = Listing | Status printed

text \<open>The \<^verbatim>\<open>switch p.Name\<close>: the field, the extra argument, the cursor and \<open>l\<close>.\<close>

definition targetField :: "string \<Rightarrow> string list \<Rightarrow> int \<Rightarrow> string \<times> string \<times> string list \<times> int" where
  "targetField name params l =
     (if name = ''pset'' then (fst (Get params), [], snd (Get params), l - 1)
      else if name = ''a'' then (''format'', [], params, l)
      else if name = ''C'' then (''title'', [], params, l)
      else if name = ''f'' then (''fieldsep'', [], params, l)
      else if name = ''H'' then (''format'', ''html'', params, l)
      else if name = ''T'' then (''tableattr'', [], params, l)
      else if name = ''t'' then (''tuples_only'', [], params, l)
      else if name = ''x'' then (''expanded'', [], params, l)
      else ([], [], params, l))"

text \<open>
  From \<^verbatim>\<open>var field, extra string\<close> to the replacement of the name: the template key
  and the value \<open>v\<close> that go into the output.
\<close>

definition statusValue :: "penv \<Rightarrow> string \<Rightarrow> string list \<Rightarrow> (string \<times> string) result" where
  "statusValue E name params0 =
     (case targetField name params0 (int (length params0)) of
        (field, extra, params, l) \<Rightarrow>
          (case Pget E field of
             Err e \<Rightarrow> Err e
           | Panic x \<Rightarrow> Panic x
           | Ok v0 \<Rightarrow>
               (case (if l = 0 then Ptoggle E field extra
                      else if l \<ge> 1 then Pset E field (fst (Get params))
                      else Ok v0) of
                  Err e \<Rightarrow> Err e
                | Panic x \<Rightarrow> Panic x
                | Ok v \<Rightarrow>
                    Ok (if field = ''expanded'' \<and> v = ''auto'' then ''expanded_auto'' else field,
                        v))))"

text \<open>
  The \<^verbatim>\<open>switch\<close> that formats the output; the two tables
  \<^verbatim>\<open>text.FormatFieldNameSetMap\<close> and \<^verbatim>\<open>text.FormatFieldNameUnsetMap\<close> of another
  package are arguments (a key that is absent gives the empty string).
\<close>

definition formatOutput :: "(string \<Rightarrow> string) \<Rightarrow> (string \<Rightarrow> string) \<Rightarrow> string \<Rightarrow> string \<Rightarrow> printed" where
  "formatOutput FormatFieldNameSetMap FormatFieldNameUnsetMap field v =
     (let mask = FormatFieldNameSetMap field;
          unsetMask = FormatFieldNameUnsetMap field
      in if Contains mask ''%d'' then Fprintf_int mask v
         else if unsetMask \<noteq> [] \<and> v = [] then Fprint unsetMask
         else if \<not> Contains mask ''%'' then Fprint mask
         else Fprintf_str mask v)"

text \<open>The handler \<^verbatim>\<open>Process\<close> of \<open>SetFormatVar\<close>, for the command name \<open>p.Name\<close> and \<open>p.Params\<close>.\<close>

definition SetFormatVar_Process ::
  "penv \<Rightarrow> (string \<Rightarrow> string) \<Rightarrow> (string \<Rightarrow> string) \<Rightarrow> string \<Rightarrow> string list \<Rightarrow> shown result" where
  "SetFormatVar_Process E FormatFieldNameSetMap FormatFieldNameUnsetMap name params =
     (if name = ''pset'' \<and> length params = 0 then Ok Listing
      else
        (case statusValue E name params of
           Err e \<Rightarrow> Err e
         | Panic x \<Rightarrow> Panic x
         | Ok (field, v) \<Rightarrow>
             Ok (Status (formatOutput FormatFieldNameSetMap FormatFieldNameUnsetMap field v))))"

section \<open>Notions used in the statements\<close>

text \<open>
  What is left of a line of the password file once the comment and the surrounding
  white space are gone, its fields, and what makes it acceptable: it is blank, or it has
  six fields none of which is empty.  The entries of a file are the fields of its
  lines that are not blank.
\<close>

definition cleanLine :: "string \<Rightarrow> string" where
  "cleanLine t = TrimSpace (commentRE_ReplaceAllString t)"

definition fieldsOf :: "string \<Rightarrow> string list" where
  "fieldsOf t = Split (cleanLine t) (CHR '':'')"

definition wellFormed :: "string \<Rightarrow> bool" where
  "wellFormed t = (cleanLine t = [] \<or> (length (fieldsOf t) = 6 \<and> [] \<notin> set (fieldsOf t)))"

definition entriesOf :: "string list \<Rightarrow> string list list" where
  "entriesOf lines = map fieldsOf (filter (\<lambda>t. cleanLine t \<noteq> []) lines)"

text \<open>
  An entry matches an identity when it has a field for every component of the identity
  and each of these fields is the wildcard or equal to the component.
\<close>

definition fieldMatches :: "string \<Rightarrow> string \<Rightarrow> bool" where
  "fieldMatches f c = (f = ''*'' \<or> f = c)"

definition matches :: "string list \<Rightarrow> string list \<Rightarrow> bool" where
  "matches n entry =
     (length n \<le> length entry \<and> (\<forall>i\<in>{0..<length n}. fieldMatches (entry ! i) (n ! i)))"

definition hasPassword :: "URL \<Rightarrow> bool" where
  "hasPassword v = (case User v of None \<Rightarrow> False | Some ui \<Rightarrow> passwordSet ui)"

definition knownUsername :: "URL \<Rightarrow> string" where
  "knownUsername v = (case User v of None \<Rightarrow> [] | Some ui \<Rightarrow> username ui)"


text \<open>
  The call gets as far as reading the password file: the URL has no password, and the
  file exists, is not a directory and passes the check of its mode.
\<close>

definition passFileUsable :: "world \<Rightarrow> URL \<Rightarrow> bool" where
  "passFileUsable w v =
     (\<not> hasPassword v \<and>
      (case Stat w of
         StatInfo mode \<Rightarrow> \<not> IsDir mode \<and> (GOOS w = ''windows'' \<or> mode AND 0x3f = 0)
       | _ \<Rightarrow> False))"

text \<open>
  The assignments \<^verbatim>\<open>cmdMap[key] = mc\<close> that \<open>init\<close> makes, in order, and the list
  they come to for the table above.
\<close>

fun insertions :: "(Metacmd \<times> Cmd) list \<Rightarrow> (string \<times> Metacmd) list" where
  "insertions [] = []"
| "insertions ((mc, c) # rest) =
     (if mc = NoneCmd then insertions rest
      else (Name c, mc) # map (\<lambda>alias. (alias, mc)) (map fst (Aliases c)) @ insertions rest)"

definition registryKeys :: "(string \<times> Metacmd) list" where
  "registryKeys =
     [(''?'', Question), (''?'', Question), (''? '', Question), (''q'', Quit),
      (''quit'', Quit), (''copyright'', Copyright), (''conninfo'', ConnectionInfo),
      (''password'', Password), (''passwd'', Password), (''p'', Print), (''print'', Print),
      (''raw'', Print), (''r'', Reset), (''reset'', Reset), (''begin'', Transact),
      (''commit'', Transact), (''rollback'', Transact), (''prompt'', Prompt), (''set'', SetVar),
      (''unset'', Unset), (''pset'', SetFormatVar), (''a'', SetFormatVar), (''C'', SetFormatVar),
      (''f'', SetFormatVar), (''H'', SetFormatVar), (''T'', SetFormatVar),
      (''t'', SetFormatVar), (''x'', SetFormatVar)]"

text \<open>The field a call of the \<open>pset\<close> handler is about.\<close>

definition fieldOf :: "string \<Rightarrow> string list \<Rightarrow> string" where
  "fieldOf name params = fst (targetField name params (int (length params)))"

text \<open>
  Modelled from the spec: a fragment of the format-option engine with two options,
  \<open>title\<close>, which accepts any string and is unset by a toggle, and \<open>expanded\<close>, which
  accepts \<open>on\<close>, \<open>off\<close> and \<open>auto\<close>; any other name is an unknown field.
\<close>

definition sampleEnv :: penv where
  "sampleEnv =
     \<lparr>Pget = (\<lambda>field.
         if field = ''title'' then Ok []
         else if field = ''expanded'' then Ok ''off''
         else Err (OtherError ''unknown field'')),
      Ptoggle = (\<lambda>field extra.
         if field = ''title'' then Ok []
         else if field = ''expanded'' then Ok ''on''
         else Err (OtherError ''unknown field'')),
      Pset = (\<lambda>field raw.
         if field = ''title'' then Ok raw
         else if field = ''expanded'' then
           (if raw \<in> set [''on'', ''off'', ''auto''] then Ok raw
            else Err (OtherError ''invalid value''))
         else Err (OtherError ''unknown field''))\<rparr>"

declare Split.simps [simp del]
declare TrimLeftSpace.simps [simp del]
declare TrimRightSpace.simps [simp del]
declare matchFrom.simps [simp del]

section \<open>Properties of the quoting resolver\<close>

lemma slice_interior: "slice s (Suc 0) (length s - Suc 0) = butlast (tl s)"
  by (cases s) (simp_all add: slice_def butlast_conv_take)

lemma slice_tail: "slice (c # r) (Suc 0) (Suc (length r)) = r"
  by (simp add: slice_def)

lemma unquote_cases:
  "unquote s c =
     (if 2 \<le> length s \<and> last s = c then Ok (butlast (tl s)) else Err ErrUnterminatedString)"
proof (cases "2 \<le> length s")
  case True
  then have "s \<noteq> []" by auto
  then have "s ! (length s - 1) = last s" by (simp add: last_conv_nth)
  with True show ?thesis by (simp add: unquote_def slice_interior)
next
  case False
  then show ?thesis by (simp add: unquote_def)
qed

lemma Unquote_colon:
  assumes "r \<noteq> []"
  shows "Unquote vars (CHR '':'' # r) =
           (case Getvar vars r of
              Err e \<Rightarrow> Err e
            | Panic p \<Rightarrow> Panic p
            | Ok (ok, v) \<Rightarrow> if ok then Ok v else Ok (CHR '':'' # r))"
  using assms by (simp add: Unquote_def Let_def slice_tail)

lemma Getvar_quoted:
  assumes "r \<noteq> []" and "hd r = squote \<or> hd r = dquote"
  shows "Getvar vars r =
           (if 2 \<le> length r \<and> last r = hd r then
              (case vars (butlast (tl r)) of
                 Some v \<Rightarrow> Ok (True, [hd r] @ v @ [hd r])
               | None \<Rightarrow> Ok (False, r))
            else Err ErrUnterminatedString)"
  using assms by (cases r) (simp_all add: Getvar_def unquote_cases split: option.splits)

lemma Getvar_plain:
  assumes "r \<noteq> []" and "hd r \<noteq> squote" and "hd r \<noteq> dquote"
  shows "Getvar vars r = (case vars r of Some v \<Rightarrow> Ok (True, v) | None \<Rightarrow> Ok (False, r))"
  using assms by (cases r) (simp_all add: Getvar_def split: option.splits)

text \<open>
  C5.  A token of more than one character that starts with a single or a double quote
  is unquoted to its interior (first and last character removed) when its last
  character is that same quote, and fails with the unterminated-string error otherwise.
  In particular \<open>'abc'\<close> gives \<open>abc\<close> and \<open>'abc\<close> fails.
\<close>

theorem Unquote_quoted_token:
  "(1 < length s \<and> (hd s = squote \<or> hd s = dquote) \<longrightarrow>
      Unquote vars s =
        (if last s = hd s then Ok (butlast (tl s)) else Err ErrUnterminatedString))
   \<and> Unquote vars (squote # ''abc'' @ [squote]) = Ok ''abc''
   \<and> Unquote vars (squote # ''abc'') = Err ErrUnterminatedString"
proof (intro conjI impI)
  assume a: "1 < length s \<and> (hd s = squote \<or> hd s = dquote)"
  then have ne: "s \<noteq> []" by auto
  then have "s ! 0 = hd s" by (simp add: hd_conv_nth)
  with a ne show "Unquote vars s =
      (if last s = hd s then Ok (butlast (tl s)) else Err ErrUnterminatedString)"
    by (auto simp: Unquote_def unquote_cases)
next
  show "Unquote vars (squote # ''abc'' @ [squote]) = Ok ''abc''"
    by (simp add: Unquote_def unquote_cases)
next
  show "Unquote vars (squote # ''abc'') = Err ErrUnterminatedString"
    by (simp add: Unquote_def unquote_cases)
qed

theorem Unquote_quoted_token_witness:
  "Unquote Map.empty (dquote # ''a b'' @ [dquote]) = Ok ''a b''
   \<and> Unquote Map.empty (dquote # ''a b'' @ [squote]) = Err ErrUnterminatedString"
  using Unquote_quoted_token [of "dquote # ''a b'' @ [dquote]" Map.empty]
    Unquote_quoted_token [of "dquote # ''a b'' @ [squote]" Map.empty]
  by simp

text \<open>
  C6.  A token \<open>:r\<close> of more than one character is resolved by looking \<open>r\<close> up with
  \<open>Getvar\<close>.  When \<open>r\<close> starts with a quote and is a well-formed quoted string, the
  name looked up is the interior of \<open>r\<close> and the value found is returned between two
  copies of that quote; when \<open>r\<close> does not start with a quote, \<open>r\<close> itself is the name
  and the value is returned as it is.  In both cases a name that is not a known
  variable gives back the whole token, unchanged and without error.
\<close>

theorem Unquote_variable_reference:
  assumes "1 < length s" and "hd s = CHR '':''"
  shows "Unquote vars s =
           (case Getvar vars (tl s) of
              Err e \<Rightarrow> Err e
            | Panic p \<Rightarrow> Panic p
            | Ok (ok, v) \<Rightarrow> if ok then Ok v else Ok s)
         \<and> ((hd (tl s) = squote \<or> hd (tl s) = dquote)
              \<and> unquote (tl s) (hd (tl s)) = Ok n \<longrightarrow>
            n = butlast (tl (tl s)) \<and>
            Unquote vars s =
              (case vars n of
                 Some v \<Rightarrow> Ok ([hd (tl s)] @ v @ [hd (tl s)])
               | None \<Rightarrow> Ok s))
         \<and> (hd (tl s) \<noteq> squote \<and> hd (tl s) \<noteq> dquote \<longrightarrow>
            Unquote vars s = (case vars (tl s) of Some v \<Rightarrow> Ok v | None \<Rightarrow> Ok s))"
proof (intro conjI impI)
  from assms obtain r where s: "s = CHR '':'' # r" and r: "r \<noteq> []"
    by (cases s) auto
  show "Unquote vars s =
           (case Getvar vars (tl s) of
              Err e \<Rightarrow> Err e
            | Panic p \<Rightarrow> Panic p
            | Ok (ok, v) \<Rightarrow> if ok then Ok v else Ok s)"
    unfolding s using r by (simp add: Unquote_colon)
  {
    assume "(hd (tl s) = squote \<or> hd (tl s) = dquote) \<and> unquote (tl s) (hd (tl s)) = Ok n"
    then have q: "hd r = squote \<or> hd r = dquote" and u: "unquote r (hd r) = Ok n"
      by (simp_all add: s)
    from u have wf: "2 \<le> length r \<and> last r = hd r" and n: "n = butlast (tl r)"
      by (auto simp: unquote_cases split: if_splits)
    from n show "n = butlast (tl (tl s))" by (simp add: s)
    show "Unquote vars s =
             (case vars n of
                Some v \<Rightarrow> Ok ([hd (tl s)] @ v @ [hd (tl s)])
              | None \<Rightarrow> Ok s)"
      unfolding s using r q wf n
      by (simp add: Unquote_colon Getvar_quoted split: option.splits)
  }
  {
    assume "hd (tl s) \<noteq> squote \<and> hd (tl s) \<noteq> dquote"
    then show "Unquote vars s = (case vars (tl s) of Some v \<Rightarrow> Ok v | None \<Rightarrow> Ok s)"
      using r unfolding s by (simp add: Unquote_colon Getvar_plain split: option.splits)
  }
qed

theorem Unquote_variable_reference_witness:
  "Unquote [''x'' \<mapsto> ''1''] (CHR '':'' # squote # ''x'' @ [squote]) = Ok (squote # ''1'' @ [squote])
   \<and> Unquote [''x'' \<mapsto> ''1''] (CHR '':'' # dquote # ''y'' @ [dquote])
       = Ok (CHR '':'' # dquote # ''y'' @ [dquote])
   \<and> Unquote [''x'' \<mapsto> ''1''] '':x'' = Ok ''1''
   \<and> Unquote [''x'' \<mapsto> ''1''] '':y'' = Ok '':y''"
  using Unquote_variable_reference
      [of "CHR '':'' # squote # ''x'' @ [squote]" "[''x'' \<mapsto> ''1'']" "''x''", THEN conjunct2]
    Unquote_variable_reference
      [of "CHR '':'' # dquote # ''y'' @ [dquote]" "[''x'' \<mapsto> ''1'']" "''y''", THEN conjunct2]
    Unquote_variable_reference [of "'':x''" "[''x'' \<mapsto> ''1'']" "''x''", THEN conjunct2]
    Unquote_variable_reference [of "'':y''" "[''x'' \<mapsto> ''1'']" "''y''", THEN conjunct2]
  by (simp add: unquote_def slice_def)

text \<open>
  C9.  A token \<open>:r\<close> whose remainder \<open>r\<close> starts with a single or a double quote and
  does not end with that quote fails with the unterminated-string error; the token is
  not handed back unchanged, whatever the variables are.
\<close>

theorem Unquote_malformed_quoted_reference:
  assumes "hd s = CHR '':''" and "tl s \<noteq> []"
    and "hd (tl s) = squote \<or> hd (tl s) = dquote"
    and "last (tl s) \<noteq> hd (tl s)"
  shows "Unquote vars s = Err ErrUnterminatedString \<and> Unquote vars s \<noteq> Ok s"
proof -
  from assms(1,2) obtain r where s: "s = CHR '':'' # r" and r: "r \<noteq> []"
    by (cases s) auto
  from assms(3,4) have "Getvar vars r = Err ErrUnterminatedString"
    using r by (simp add: s Getvar_quoted)
  then have "Unquote vars s = Err ErrUnterminatedString"
    unfolding s using r by (simp add: Unquote_colon)
  then show ?thesis by simp
qed

theorem Unquote_malformed_quoted_reference_witness:
  "Unquote [''abc'' \<mapsto> ''1''] (CHR '':'' # squote # ''abc'') = Err ErrUnterminatedString
   \<and> Unquote [''abc'' \<mapsto> ''1''] (CHR '':'' # dquote # ''abc'' @ [squote])
       = Err ErrUnterminatedString"
  using Unquote_malformed_quoted_reference
      [of "CHR '':'' # squote # ''abc''" "[''abc'' \<mapsto> ''1'']"]
    Unquote_malformed_quoted_reference
      [of "CHR '':'' # dquote # ''abc'' @ [squote]" "[''abc'' \<mapsto> ''1'']"]
  by simp

text \<open>
  C10.  \<open>Getvar\<close> panics exactly on the empty string (it reads \<open>s[0]\<close> first) and on
  no other input.  \<open>Unquote\<close> calls it only on \<open>s[1:]\<close> of a token of at least two
  characters, an argument that is never empty, and so \<open>Unquote\<close> never panics.
\<close>

theorem Getvar_total_on_nonempty:
  "(Getvar vars s = Panic p) = (s = [] \<and> p = IndexOutOfRange)
   \<and> (1 < length t \<longrightarrow> slice t 1 (length t) \<noteq> [])
   \<and> Unquote vars t \<noteq> Panic p"
proof (intro conjI impI)
  show "(Getvar vars s = Panic p) = (s = [] \<and> p = IndexOutOfRange)"
    by (cases s) (auto simp: Getvar_def unquote_cases split: option.splits)
  show "slice t 1 (length t) \<noteq> []" if "1 < length t"
    using that by (cases t) (auto simp: slice_def)
  have g: "Getvar vars r \<noteq> Panic p" if "r \<noteq> []" for r
    using that by (cases r) (auto simp: Getvar_def unquote_cases split: option.splits)
  show "Unquote vars t \<noteq> Panic p"
  proof (cases "1 < length t \<and> t ! 0 = CHR '':''")
    case True
    then obtain r where t: "t = CHR '':'' # r" and r: "r \<noteq> []"
      by (cases t) auto
    from g [OF r] show ?thesis
      unfolding t using r by (auto simp: Unquote_colon split: result.splits)
  next
    case False
    then show ?thesis
      by (auto simp: Unquote_def Let_def unquote_cases)
  qed
qed

theorem Getvar_total_on_nonempty_witness:
  "Getvar Map.empty [] = Panic IndexOutOfRange
   \<and> slice '':a'' 1 (length '':a'') = ''a''
   \<and> Unquote Map.empty '':a'' = Ok '':a''"
  using Getvar_total_on_nonempty [of Map.empty "[]" IndexOutOfRange "'':a''"]
  by (simp add: slice_def Unquote_def Getvar_def)

section \<open>Properties of the password file reader\<close>



lemma emptyField_None: "(emptyField k v = None) = ([] \<notin> set v)"
  by (induction v arbitrary: k) auto


lemma emptyField_NoneI: "[] \<notin> set v \<Longrightarrow> emptyField k v = None"
  by (simp add: emptyField_None)

lemma scanEntries_Cons:
  "scanEntries i acc (t # ts) =
     (if cleanLine t = [] then scanEntries (i + 1) acc ts
      else if length (fieldsOf t) \<noteq> 6 then Err (BadPassFileLine (i + 1))
      else (case emptyField 0 (fieldsOf t) of
              Some j \<Rightarrow> Err (BadPassFileFieldEmpty (i + 1) j)
            | None \<Rightarrow> scanEntries (i + 1) (acc @ [fieldsOf t]) ts))"
  by (simp add: cleanLine_def fieldsOf_def Let_def split: option.splits)

lemma scanEntries_step_good:
  "wellFormed t \<Longrightarrow>
   scanEntries i acc (t # ts) = scanEntries (i + 1) (acc @ entriesOf [t]) ts"
  unfolding scanEntries_Cons
  by (auto simp: wellFormed_def entriesOf_def emptyField_NoneI)

lemma entriesOf_Cons: "entriesOf (t # ts) = entriesOf [t] @ entriesOf ts"
  by (simp add: entriesOf_def)

lemma entriesOf_append: "entriesOf (xs @ ys) = entriesOf xs @ entriesOf ys"
  by (simp add: entriesOf_def)

lemma scanEntries_prefix_good:
  "\<forall>t\<in>set pre. wellFormed t \<Longrightarrow>
   scanEntries i acc (pre @ rest) = scanEntries (i + length pre) (acc @ entriesOf pre) rest"
proof (induction pre arbitrary: i acc)
  case Nil
  then show ?case by (simp add: entriesOf_def)
next
  case (Cons t pre)
  then have "scanEntries i acc ((t # pre) @ rest) = scanEntries (i + 1) (acc @ entriesOf [t]) (pre @ rest)"
    by (simp add: scanEntries_step_good del: scanEntries.simps)
  also have "\<dots> = scanEntries (i + 1 + length pre) ((acc @ entriesOf [t]) @ entriesOf pre) rest"
    using Cons.prems by (intro Cons.IH) simp
  finally show ?case by (simp add: entriesOf_Cons [of t pre])
qed



lemma scanEntries_bad_is_Err:
  "\<not> wellFormed t \<Longrightarrow> \<exists>e. scanEntries i acc (t # ts) = Err e"
  unfolding scanEntries_Cons
  by (auto simp: wellFormed_def emptyField_None split: option.splits)

lemma readPassEntries_Ok_iff:
  "(readPassEntries (Opened lines) = Ok es) = ((\<forall>t\<in>set lines. wellFormed t) \<and> es = entriesOf lines)"
proof (cases "\<forall>t\<in>set lines. wellFormed t")
  case True
  from scanEntries_prefix_good [OF True, of 0 "[]" "[]"]
  show ?thesis using True by (auto simp: readPassEntries_def simp del: scanEntries.simps(2))
next
  case False
  then obtain pre t post where l: "lines = pre @ t # post"
    and pre: "\<forall>x\<in>set pre. wellFormed x" and t: "\<not> wellFormed t"
    using split_list_first_prop [of lines "\<lambda>t. \<not> wellFormed t"] by auto
  from scanEntries_bad_is_Err [OF t, of "length pre" "entriesOf pre" post]
  obtain e where "scanEntries (length pre) (entriesOf pre) (t # post) = Err e" ..
  with scanEntries_prefix_good [OF pre, of 0 "[]" "t # post"]
  have "readPassEntries (Opened lines) = Err e"
    by (simp add: readPassEntries_def l del: scanEntries.simps(2))
  with False show ?thesis by simp
qed

section \<open>Properties of the credential lookup\<close>

lemma matchFrom_in_range:
  "length n \<le> length entry \<Longrightarrow> 6 \<le> length entry \<Longrightarrow>
   matchFrom i n entry =
     (if \<forall>k. i \<le> k \<and> k < length n \<longrightarrow> fieldMatches (entry ! k) (n ! k)
      then Ok (entry ! 4, entry ! 5, True) else Ok ([], [], False))"
proof (induction i n entry rule: matchFrom.induct)
  case (1 i n entry)
  show ?case
  proof (cases "i < length n")
    case False
    with "1.prems" show ?thesis by (subst matchFrom.simps) simp
  next
    case True
    show ?thesis
    proof (cases "fieldMatches (entry ! i) (n ! i)")
      case False
      then have "\<not> (\<forall>k. i \<le> k \<and> k < length n \<longrightarrow> fieldMatches (entry ! k) (n ! k))"
        using True by auto
      with False True "1.prems" show ?thesis
        by (subst matchFrom.simps) (simp add: fieldMatches_def)
    next
      case fm: True
      have eq: "(\<forall>k. i \<le> k \<and> k < length n \<longrightarrow> fieldMatches (entry ! k) (n ! k)) =
            (\<forall>k. i + 1 \<le> k \<and> k < length n \<longrightarrow> fieldMatches (entry ! k) (n ! k))"
        using fm by (metis Suc_eq_plus1 Suc_leI le_neq_implies_less add_leD1 le_add1 order_trans)
      from True "1.prems" fm have "matchFrom i n entry = matchFrom (i + 1) n entry"
        by (subst matchFrom.simps) (auto simp: fieldMatches_def)
      also have "\<dots> = (if \<forall>k. i + 1 \<le> k \<and> k < length n \<longrightarrow> fieldMatches (entry ! k) (n ! k)
          then Ok (entry ! 4, entry ! 5, True) else Ok ([], [], False))"
        using True "1.prems" fm by (intro "1.IH") (auto simp: fieldMatches_def)
      finally show ?thesis by (simp only: eq)
    qed
  qed
qed

lemma matchFrom_beyond:
  "length entry < length n \<Longrightarrow> i \<le> length entry \<Longrightarrow>
   matchFrom i n entry =
     (if \<forall>k. i \<le> k \<and> k < length entry \<longrightarrow> fieldMatches (entry ! k) (n ! k)
      then Panic IndexOutOfRange else Ok ([], [], False))"
proof (induction i n entry rule: matchFrom.induct)
  case (1 i n entry)
  show ?case
  proof (cases "i < length entry")
    case False
    with "1.prems" show ?thesis by (subst matchFrom.simps) simp
  next
    case True
    show ?thesis
    proof (cases "fieldMatches (entry ! i) (n ! i)")
      case False
      then have "\<not> (\<forall>k. i \<le> k \<and> k < length entry \<longrightarrow> fieldMatches (entry ! k) (n ! k))"
        using True by auto
      with False True "1.prems" show ?thesis
        by (subst matchFrom.simps) (simp add: fieldMatches_def)
    next
      case fm: True
      have eq: "(\<forall>k. i \<le> k \<and> k < length entry \<longrightarrow> fieldMatches (entry ! k) (n ! k)) =
            (\<forall>k. i + 1 \<le> k \<and> k < length entry \<longrightarrow> fieldMatches (entry ! k) (n ! k))"
        using fm by (metis Suc_eq_plus1 Suc_leI le_neq_implies_less add_leD1 le_add1 order_trans)
      from True "1.prems" fm have "matchFrom i n entry = matchFrom (i + 1) n entry"
        by (subst matchFrom.simps) (auto simp: fieldMatches_def)
      also have "\<dots> = (if \<forall>k. i + 1 \<le> k \<and> k < length entry \<longrightarrow> fieldMatches (entry ! k) (n ! k)
          then Panic IndexOutOfRange else Ok ([], [], False))"
        using True "1.prems" fm by (intro "1.IH") (auto simp: fieldMatches_def)
      finally show ?thesis by (simp only: eq)
    qed
  qed
qed

lemma matchPassEntry_six:
  assumes "length entry = 6"
  shows "matchPassEntry n entry =
     (if matches n entry then Ok (entry ! 4, entry ! 5, True)
      else if 6 < length n \<and> (\<forall>k\<in>{0..<6}. fieldMatches (entry ! k) (n ! k)) then Panic IndexOutOfRange
      else Ok ([], [], False))"
proof (cases "length n \<le> 6")
  case True
  with assms matchFrom_in_range [of n entry 0] show ?thesis
    by (simp add: matchPassEntry_def matches_def)
next
  case False
  with assms matchFrom_beyond [of entry n 0] show ?thesis
    by (simp add: matchPassEntry_def matches_def)
qed

lemma entriesOf_six:
  "\<forall>t\<in>set lines. wellFormed t \<Longrightarrow> e \<in> set (entriesOf lines) \<Longrightarrow> length e = 6 \<and> [] \<notin> set e"
  by (auto simp: entriesOf_def wellFormed_def)

lemma readPassEntries_six:
  "readPassEntries (Opened lines) = Ok es \<Longrightarrow> e \<in> set es \<Longrightarrow> length e = 6 \<and> [] \<notin> set e"
  using entriesOf_six [of lines e] by (simp add: readPassEntries_Ok_iff)

lemma readPassEntries_Ok_six:
  assumes "readPassEntries f = Ok es" and "e \<in> set es"
  shows "length e = 6 \<and> [] \<notin> set e"
proof (cases f)
  case (OpenError x)
  with assms show ?thesis by (simp add: readPassEntries_def)
next
  case (Opened lines)
  with assms readPassEntries_six [of lines es e] show ?thesis by simp
qed



lemma PassFileEntry_usable:
  "passFileUsable w v \<Longrightarrow>
   PassFileEntry w v =
     (case readPassEntries (OpenFile w) of
        Err e \<Rightarrow> Err e
      | Panic x \<Rightarrow> Panic x
      | Ok entries \<Rightarrow>
          if length (Split (Normalize3 v) (CHR '':'')) < 3 then Err ErrNormalizingURL
          else findEntry (knownUsername v) (Split (Normalize3 v) (CHR '':'')) entries)"
  by (auto simp: passFileUsable_def PassFileEntry_def hasPassword_def knownUsername_def Let_def
      split: stat_result.splits option.splits result.splits)

text \<open>
  C1, as stated, does not hold: a URL that already carries a password returns nil with
  no error before the file is looked at, although the file's mode (octal 644) grants
  access to group and other and the platform is not Windows.
\<close>

theorem PassFileEntry_bad_mode_counterexample:
  "(0x1A4 :: 32 word) AND 0x3f \<noteq> 0
   \<and> PassFileEntry
     \<lparr>GOOS = ''linux'', PassFilePath = ''/home/bob/.usqlpass'', Stat = StatInfo 0x1A4,
      OpenFile = Opened [''*:*:*:*:alice:secret'']\<rparr>
     \<lparr>User = Some \<lparr>username = ''bob'', password = ''hunter2'', passwordSet = True\<rparr>,
      Normalize3 = ''postgres:localhost:5432''\<rparr>
     = Ok None"
  by (simp add: PassFileEntry_def)

text \<open>
  C1, amended.  On a platform other than Windows, when the password file exists, is not
  a directory and its mode has a bit of the mask \<open>0x3f\<close> (octal 077) set, every call for
  a URL that carries no password fails with the bad-permissions error, whatever the
  file contains.  A URL that carries a password gives nil with no error, and a
  directory gives the bad-password-file error, before the mode is looked at.
\<close>

theorem PassFileEntry_bad_mode:
  "(GOOS w \<noteq> ''windows'' \<and> Stat w = StatInfo mode \<and> mode AND 0x3f \<noteq> 0
      \<and> \<not> IsDir mode \<and> \<not> hasPassword v \<longrightarrow>
    PassFileEntry w v = Err (BadPassFileMode (PassFilePath w)))
   \<and> (hasPassword v \<longrightarrow> PassFileEntry w v = Ok None)
   \<and> (Stat w = StatInfo mode \<and> IsDir mode \<and> \<not> hasPassword v \<longrightarrow>
    PassFileEntry w v = Err (BadPassFile (PassFilePath w)))"
  by (auto simp: PassFileEntry_def hasPassword_def Let_def split: option.splits)


theorem PassFileEntry_bad_mode_witness:
  "PassFileEntry
     \<lparr>GOOS = ''linux'', PassFilePath = ''/home/bob/.usqlpass'', Stat = StatInfo 0x1A0,
      OpenFile = Opened [''*:*:*:*:alice:secret'']\<rparr>
     \<lparr>User = None, Normalize3 = ''postgres:localhost:5432''\<rparr>
     = Err (BadPassFileMode ''/home/bob/.usqlpass'')
   \<and> PassFileEntry
     \<lparr>GOOS = ''linux'', PassFilePath = ''/home/bob/.usqlpass'', Stat = StatInfo 0x180,
      OpenFile = Opened [''*:*:*:*:alice:secret'']\<rparr>
     \<lparr>User = None, Normalize3 = ''postgres:localhost:5432''\<rparr>
     = Ok (Some (UserPassword ''alice'' ''secret''))"
proof
  show "PassFileEntry
     \<lparr>GOOS = ''linux'', PassFilePath = ''/home/bob/.usqlpass'', Stat = StatInfo 0x1A0,
      OpenFile = Opened [''*:*:*:*:alice:secret'']\<rparr>
     \<lparr>User = None, Normalize3 = ''postgres:localhost:5432''\<rparr>
     = Err (BadPassFileMode ''/home/bob/.usqlpass'')"
    using PassFileEntry_bad_mode
      [of "\<lparr>GOOS = ''linux'', PassFilePath = ''/home/bob/.usqlpass'', Stat = StatInfo 0x1A0,
            OpenFile = Opened [''*:*:*:*:alice:secret'']\<rparr>" "0x1A0"
          "\<lparr>User = None, Normalize3 = ''postgres:localhost:5432''\<rparr>"]
    by (simp add: IsDir_def hasPassword_def)
  show "PassFileEntry
     \<lparr>GOOS = ''linux'', PassFilePath = ''/home/bob/.usqlpass'', Stat = StatInfo 0x180,
      OpenFile = Opened [''*:*:*:*:alice:secret'']\<rparr>
     \<lparr>User = None, Normalize3 = ''postgres:localhost:5432''\<rparr>
     = Ok (Some (UserPassword ''alice'' ''secret''))"
    by code_simp
qed


lemma spaces_nonempty: "p \<in> set spaces \<Longrightarrow> p \<noteq> []"
  by (auto simp: spaces_def asciiSpace_def unicodeSpace_def)


lemma spaceWidthLast_0_iff:
  "(spaceWidthLast s = 0) =
     (\<forall>p\<in>set spaces. \<not> (length p \<le> length s \<and> drop (length s - length p) s = p))"
proof (cases "find (\<lambda>p. length p \<le> length s \<and> drop (length s - length p) s = p) spaces")
  case None
  then have "\<forall>p\<in>set spaces. \<not> (length p \<le> length s \<and> drop (length s - length p) s = p)"
    by (simp add: find_None_iff)
  with None show ?thesis by (simp add: spaceWidthLast_def)
next
  case (Some p)
  then have "p \<in> set spaces" and "length p \<le> length s \<and> drop (length s - length p) s = p"
    by (auto simp: find_Some_iff)
  with Some spaces_nonempty [of p] show ?thesis
    by (auto simp: spaceWidthLast_def)
qed











text \<open>
  C8.  \<open>matchPassEntry\<close> reads \<open>entry[i]\<close> for the indices of the identity with no check
  of the entry's length.  Every parsed entry has six fields.  On an entry of six fields
  it panics exactly when the identity
  has more than six components and the six fields all match; so it is free of
  out-of-range reads on every entry of six fields exactly for identities of at most
  six components.  \<open>PassFileEntry\<close> refuses an identity of fewer than three components
  with an error, but hands a longer one on: with more than six components and a first
  entry whose six fields match, the call panics.
\<close>

theorem matchPassEntry_bounds:
  "(length entry = 6 \<longrightarrow>
      (matchPassEntry n entry = Panic p) =
        (p = IndexOutOfRange \<and> 6 < length n \<and>
         (\<forall>k\<in>{0..<6}. fieldMatches (entry ! k) (n ! k))))
   \<and> ((\<forall>x. length x = 6 \<longrightarrow> (\<forall>q. matchPassEntry n x \<noteq> Panic q)) = (length n \<le> 6))
   \<and> (readPassEntries f = Ok parsed \<longrightarrow> (\<forall>x\<in>set parsed. length x = 6))
   \<and> (passFileUsable w v \<and> readPassEntries (OpenFile w) = Ok entries
        \<and> length (Split (Normalize3 v) (CHR '':'')) < 3 \<longrightarrow>
      PassFileEntry w v = Err ErrNormalizingURL)
   \<and> (passFileUsable w v \<and> readPassEntries (OpenFile w) = Ok (e # rest)
        \<and> 6 < length (Split (Normalize3 v) (CHR '':''))
        \<and> (\<forall>k\<in>{0..<6}. fieldMatches (e ! k) (Split (Normalize3 v) (CHR '':'') ! k)) \<longrightarrow>
      PassFileEntry w v = Panic IndexOutOfRange)"
proof (intro conjI impI)
  have panic: "(matchPassEntry n x = Panic q) =
      (q = IndexOutOfRange \<and> 6 < length n \<and> (\<forall>k\<in>{0..<6}. fieldMatches (x ! k) (n ! k)))"
    if "length x = 6" for x q and n :: "string list"
    using that by (auto simp: matchPassEntry_six matches_def)
  show "(matchPassEntry n entry = Panic p) =
      (p = IndexOutOfRange \<and> 6 < length n \<and>
       (\<forall>k\<in>{0..<6}. fieldMatches (entry ! k) (n ! k)))"
    if "length entry = 6"
    using panic [OF that] .
  show "(\<forall>x. length x = 6 \<longrightarrow> (\<forall>q. matchPassEntry n x \<noteq> Panic q)) = (length n \<le> 6)"
  proof
    assume safe: "\<forall>x. length x = 6 \<longrightarrow> (\<forall>q. matchPassEntry n x \<noteq> Panic q)"
    show "length n \<le> 6"
    proof (rule ccontr)
      assume "\<not> length n \<le> 6"
      then have "matchPassEntry n (replicate 6 ''*'') = Panic IndexOutOfRange"
        by (simp add: panic fieldMatches_def)
      with safe show False by simp
    qed
  next
    assume "length n \<le> 6"
    then show "\<forall>x. length x = 6 \<longrightarrow> (\<forall>q. matchPassEntry n x \<noteq> Panic q)"
      by (simp add: panic)
  qed
  show "PassFileEntry w v = Err ErrNormalizingURL"
    if "passFileUsable w v \<and> readPassEntries (OpenFile w) = Ok entries
        \<and> length (Split (Normalize3 v) (CHR '':'')) < 3"
    using that by (simp add: PassFileEntry_usable)
  show "\<forall>x\<in>set parsed. length x = 6" if "readPassEntries f = Ok parsed"
    using readPassEntries_Ok_six [OF that] by simp
  show "PassFileEntry w v = Panic IndexOutOfRange"
    if a: "passFileUsable w v \<and> readPassEntries (OpenFile w) = Ok (e # rest)
        \<and> 6 < length (Split (Normalize3 v) (CHR '':''))
        \<and> (\<forall>k\<in>{0..<6}. fieldMatches (e ! k) (Split (Normalize3 v) (CHR '':'') ! k))"
  proof -
    from a have r: "readPassEntries (OpenFile w) = Ok (e # rest)" by simp
    have "length e = 6"
      using readPassEntries_Ok_six [OF r, of e] by simp
    then have "matchPassEntry (Split (Normalize3 v) (CHR '':'')) e = Panic IndexOutOfRange"
      using a by (simp add: panic)
    then show ?thesis
      using a by (simp add: PassFileEntry_usable)
  qed
qed

theorem matchPassEntry_bounds_witness:
  "matchPassEntry [''a'', ''b'', ''c'', ''d'', ''e'', ''f'', ''g'']
       [''*'', ''*'', ''*'', ''*'', ''*'', ''*'']
     = Panic IndexOutOfRange
   \<and> PassFileEntry
       \<lparr>GOOS = ''linux'', PassFilePath = ''/home/bob/.usqlpass'', Stat = StatInfo 0x180,
        OpenFile = Opened [''*:*:*:*:*:*'']\<rparr>
       \<lparr>User = None, Normalize3 = ''a:b''\<rparr>
     = Err ErrNormalizingURL
   \<and> PassFileEntry
       \<lparr>GOOS = ''linux'', PassFilePath = ''/home/bob/.usqlpass'', Stat = StatInfo 0x180,
        OpenFile = Opened [''*:*:*:*:*:*'']\<rparr>
       \<lparr>User = None, Normalize3 = ''a:b:c:d:e:f:g''\<rparr>
     = Panic IndexOutOfRange
   \<and> length (hd (entriesOf [''*:*:*:*:*:*''])) = 6"
proof (intro conjI)
  let ?n = "[''a'', ''b'', ''c'', ''d'', ''e'', ''f'', ''g'']"
  let ?e = "[''*'', ''*'', ''*'', ''*'', ''*'', ''*'']"
  let ?w = "\<lparr>GOOS = ''linux'', PassFilePath = ''/home/bob/.usqlpass'', Stat = StatInfo 0x180,
        OpenFile = Opened [''*:*:*:*:*:*'']\<rparr>"
  let ?v2 = "\<lparr>User = None, Normalize3 = ''a:b''\<rparr>"
  let ?v7 = "\<lparr>User = None, Normalize3 = ''a:b:c:d:e:f:g''\<rparr>"
  have "length ?e = 6 \<and> 6 < length ?n \<and> (\<forall>k\<in>{0..<6}. fieldMatches (?e ! k) (?n ! k))"
    by code_simp
  with matchPassEntry_bounds [where entry = ?e and n = ?n and p = IndexOutOfRange]
  show "matchPassEntry ?n ?e = Panic IndexOutOfRange" by blast
  have "passFileUsable ?w ?v2 \<and> readPassEntries (OpenFile ?w) = Ok [?e]
      \<and> length (Split (Normalize3 ?v2) (CHR '':'')) < 3"
    by code_simp
  with matchPassEntry_bounds [where w = ?w and v = ?v2 and entries = "[?e]"]
  show "PassFileEntry ?w ?v2 = Err ErrNormalizingURL" by blast
  have "passFileUsable ?w ?v7 \<and> readPassEntries (OpenFile ?w) = Ok (?e # [])
      \<and> 6 < length (Split (Normalize3 ?v7) (CHR '':''))
      \<and> (\<forall>k\<in>{0..<6}. fieldMatches (?e ! k) (Split (Normalize3 ?v7) (CHR '':'') ! k))"
    by code_simp
  with matchPassEntry_bounds [where w = ?w and v = ?v7 and e = ?e and rest = "[]"]
  show "PassFileEntry ?w ?v7 = Panic IndexOutOfRange" by blast
  have "readPassEntries (Opened [''*:*:*:*:*:*'']) = Ok [?e]"
    and "entriesOf [''*:*:*:*:*:*''] = [?e]"
    by code_simp+
  with matchPassEntry_bounds [where f = "Opened [''*:*:*:*:*:*'']" and parsed = "[?e]"]
  show "length (hd (entriesOf [''*:*:*:*:*:*''])) = 6" by simp
qed

section \<open>Properties of the command registry\<close>

lemma addAliases_map_of:
  "addAliases mc as m = m ++ map_of (rev (map (\<lambda>a. (a, mc)) as))"
  by (induction as arbitrary: m) (simp_all add: map_add_upd_left fun_upd_def [symmetric])

text \<open>The order in which the aliases of a command are visited does not matter.\<close>

lemma addAliases_apply:
  "addAliases mc as m k = (if k \<in> set as then Some mc else m k)"
  by (induction as arbitrary: m) auto

lemma initLoop_insertions:
  "fst (initLoop cs (m, sm)) = m ++ map_of (rev (insertions cs))"
proof (induction cs arbitrary: m sm)
  case Nil
  then show ?case by simp
next
  case (Cons a cs)
  obtain mc c where a: "a = (mc, c)" by (cases a)
  show ?case
  proof (cases "mc = NoneCmd")
    case True
    then show ?thesis by (simp add: a Cons.IH)
  next
    case False
    have "m(Name c \<mapsto> mc) = m ++ map_of [(Name c, mc)]" by simp
    then show ?thesis
      using False
      by (simp add: a Cons.IH addAliases_map_of map_add_assoc del: map_add_upd map_of.simps)
  qed
qed

lemma insertions_cmds: "insertions (cmds cn) = registryKeys"
  by (simp add: cmds_def zeroCmd_def registryKeys_def)

lemma cmdMap_map_of: "cmdMap cn = map_of (rev registryKeys)"
  by (simp add: cmdMap_def init_def initLoop_insertions insertions_cmds)

lemma registry_lookup: "\<forall>(k, mc)\<in>set registryKeys. map_of (rev registryKeys) k = Some mc"
  by code_simp

lemma registry_dups: "\<forall>(k, mc)\<in>set registryKeys. count_list (map fst registryKeys) k = (if k = ''?'' then 2 else 1)"
  by code_simp

lemma insertions_member:
  "(mc, c) \<in> set cs \<Longrightarrow> mc \<noteq> NoneCmd \<Longrightarrow>
   (Name c, mc) \<in> set (insertions cs) \<and>
   (\<forall>alias\<in>set (map fst (Aliases c)). (alias, mc) \<in> set (insertions cs))"
proof (induction cs)
  case Nil
  then show ?case by simp
next
  case (Cons a cs)
  show ?case
  proof (cases "a = (mc, c)")
    case True
    with Cons.prems(2) show ?thesis by force
  next
    case False
    with Cons.prems have "(mc, c) \<in> set cs" by simp
    from Cons.IH [OF this Cons.prems(2)] show ?thesis
      by (cases a) auto
  qed
qed

text \<open>
  C4, as stated, does not hold: the key \<open>?\<close> is the canonical name of the help command
  and also one of its aliases, so it is inserted twice and the inserted keys are not
  distinct.
\<close>

theorem cmdMap_registry_counterexample:
  "\<not> distinct (map fst (insertions (cmds ''usql'')))
   \<and> count_list (map fst (insertions (cmds ''usql''))) ''?'' = 2
   \<and> (case map_of (cmds ''usql'') Question of
        None \<Rightarrow> False
      | Some c \<Rightarrow> Name c = ''?'' \<and> Name c \<in> set (map fst (Aliases c)))"
  by (simp add: cmds_def zeroCmd_def)

text \<open>
  C4, amended.  Every canonical name and every alias of a command other than the empty
  one is in the index \<open>cmdMap\<close> and maps to its command, and the index has no other key.
  No key belongs to two commands.  The key \<open>?\<close> is inserted twice, both times for the
  help command; every other key is inserted once.
\<close>

theorem cmdMap_registry:
  "(\<forall>(mc, c)\<in>set (cmds cn). mc \<noteq> NoneCmd \<longrightarrow>
      cmdMap cn (Name c) = Some mc \<and>
      (\<forall>alias\<in>set (map fst (Aliases c)). cmdMap cn alias = Some mc))
   \<and> fst (initLoop cs (m, sm)) = m ++ map_of (rev (insertions cs))
   \<and> dom (cmdMap cn) = set (map fst (insertions (cmds cn)))
   \<and> (\<forall>(k, mc)\<in>set (insertions (cmds cn)). \<forall>(k', mc')\<in>set (insertions (cmds cn)).
        k = k' \<longrightarrow> mc = mc')
   \<and> (\<forall>k\<in>set (map fst (insertions (cmds cn))).
        count_list (map fst (insertions (cmds cn))) k = (if k = ''?'' then 2 else 1))
   \<and> [(k, mc) \<leftarrow> insertions (cmds cn). k = ''?''] = [(''?'', Question), (''?'', Question)]"
proof (intro conjI)
  have look: "cmdMap cn k = Some mc" if "(k, mc) \<in> set (insertions (cmds cn))" for k mc
    using that registry_lookup by (auto simp: cmdMap_map_of insertions_cmds)
  show "\<forall>(mc, c)\<in>set (cmds cn). mc \<noteq> NoneCmd \<longrightarrow>
      cmdMap cn (Name c) = Some mc \<and>
      (\<forall>alias\<in>set (map fst (Aliases c)). cmdMap cn alias = Some mc)"
    using insertions_member [of _ _ "cmds cn"] look by blast
  show "fst (initLoop cs (m, sm)) = m ++ map_of (rev (insertions cs))"
    by (rule initLoop_insertions)
  show "dom (cmdMap cn) = set (map fst (insertions (cmds cn)))"
    by (simp add: cmdMap_map_of insertions_cmds dom_map_of_conv_image_fst)
  show "\<forall>(k, mc)\<in>set (insertions (cmds cn)). \<forall>(k', mc')\<in>set (insertions (cmds cn)).
        k = k' \<longrightarrow> mc = mc'"
  proof clarify
    fix k mc mc'
    assume a: "(k, mc) \<in> set (insertions (cmds cn))"
      and b: "(k, mc') \<in> set (insertions (cmds cn))"
    from look [OF a] look [OF b] show "mc = mc'" by simp
  qed
  show "\<forall>k\<in>set (map fst (insertions (cmds cn))).
        count_list (map fst (insertions (cmds cn))) k = (if k = ''?'' then 2 else 1)"
    using registry_dups by (auto simp: insertions_cmds)
  show "[(k, mc) \<leftarrow> insertions (cmds cn). k = ''?''] = [(''?'', Question), (''?'', Question)]"
    unfolding insertions_cmds by code_simp
qed

theorem cmdMap_registry_witness:
  "cmdMap ''usql'' ''?'' = Some Question \<and> cmdMap ''usql'' ''? '' = Some Question
   \<and> cmdMap ''usql'' ''q'' = Some Quit \<and> cmdMap ''usql'' ''quit'' = Some Quit
   \<and> cmdMap ''usql'' ''pset'' = Some SetFormatVar \<and> cmdMap ''usql'' ''x'' = Some SetFormatVar
   \<and> count_list (map fst (insertions (cmds ''usql''))) ''quit'' = 1"
  using cmdMap_registry [of "''usql''", THEN conjunct1]
    cmdMap_registry [of "''usql''", THEN conjunct2, THEN conjunct2, THEN conjunct2, THEN conjunct2,
      THEN conjunct1]
  by (simp add: cmds_def zeroCmd_def)

section \<open>Properties of the \<open>pset\<close> handler\<close>

text \<open>
  C7, as stated, does not hold: \<open>\pset title auto\<close> and \<open>\C auto\<close> leave the option
  \<open>title\<close> with the value \<open>auto\<close>, and the status is rendered with the key \<open>title\<close>, not
  \<open>title_auto\<close>.
\<close>

theorem SetFormatVar_status_key_counterexample:
  "statusValue sampleEnv ''pset'' [''title'', ''auto''] = Ok (''title'', ''auto'')
   \<and> statusValue sampleEnv ''C'' [''auto''] = Ok (''title'', ''auto'')"
  by code_simp


text \<open>
  C7, amended.  Only the field \<open>expanded\<close> has a key of its own for the value \<open>auto\<close>:
  when the value after the toggle or set is \<open>auto\<close>, its status is rendered with the
  template key \<open>expanded_auto\<close>.  Every other field is rendered with its own name as
  key, whatever its value.  The two templates of the output are the entries of the
  two tables at that key.
\<close>

theorem SetFormatVar_status_key:
  "(statusValue E name params = Ok (key, v) \<longrightarrow>
      key = (if fieldOf name params = ''expanded'' \<and> v = ''auto'' then ''expanded_auto''
             else fieldOf name params))
   \<and> (SetFormatVar_Process E S U name params = Ok (Status printed) \<longrightarrow>
      (\<exists>k x. statusValue E name params = Ok (k, x) \<and> printed = formatOutput S U k x))
   \<and> (statusValue E name params = Ok (key, v) \<and> fieldOf name params \<noteq> ''expanded'' \<longrightarrow>
      key = fieldOf name params)
   \<and> (statusValue E name params = Ok (key, ''auto'') \<and> fieldOf name params = ''expanded'' \<longrightarrow>
      key = ''expanded_auto'')"
proof -
  have k: "key = (if fieldOf name params = ''expanded'' \<and> v = ''auto'' then ''expanded_auto''
             else fieldOf name params)"
    if "statusValue E name params = Ok (key, v)" for key v
    using that
    by (auto simp: statusValue_def fieldOf_def split: prod.splits result.splits if_splits)
  have "\<exists>k x. statusValue E name params = Ok (k, x) \<and> printed = formatOutput S U k x"
    if "SetFormatVar_Process E S U name params = Ok (Status printed)"
    using that by (auto simp: SetFormatVar_Process_def split: if_splits result.splits)
  with k show ?thesis by auto
qed

theorem SetFormatVar_status_key_witness:
  "statusValue sampleEnv ''x'' [''auto''] = Ok (''expanded_auto'', ''auto'')
   \<and> fieldOf ''C'' [''auto''] = ''title''
   \<and> SetFormatVar_Process sampleEnv (\<lambda>key. ''Expanded display is used automatically.'')
        (\<lambda>key. []) ''x'' [''auto'']
      = Ok (Status (Fprint ''Expanded display is used automatically.''))"
proof (intro conjI)
  have x: "statusValue sampleEnv ''x'' [''auto''] = Ok (''expanded_auto'', ''auto'')"
    by code_simp
  then show "statusValue sampleEnv ''x'' [''auto''] = Ok (''expanded_auto'', ''auto'')" .
  have c: "statusValue sampleEnv ''C'' [''auto''] = Ok (''title'', ''auto'')
      \<and> fieldOf ''C'' [''auto''] \<noteq> ''expanded''"
    by code_simp
  with SetFormatVar_status_key [where E = sampleEnv and name = "''C''" and params = "[''auto'']"
      and key = "''title''" and v = "''auto''"]
  show "fieldOf ''C'' [''auto''] = ''title''" by simp
  have "SetFormatVar_Process sampleEnv (\<lambda>key. ''Expanded display is used automatically.'')
        (\<lambda>key. []) ''x'' [''auto'']
      = Ok (Status (Fprint ''Expanded display is used automatically.''))"
    by code_simp
  then show "SetFormatVar_Process sampleEnv (\<lambda>key. ''Expanded display is used automatically.'')
        (\<lambda>key. []) ''x'' [''auto'']
      = Ok (Status (Fprint ''Expanded display is used automatically.''))" .
qed


end
